theory Spec2Isabelle
  imports Main "HOL-Library.AList"
begin

section \<open>The forms package: fields, validators and forms\<close>

text \<open>
  A shallow embedding of \<^verbatim>\<open>forms.go\<close>. Pointers are replaced by explicit state
  passing: a method that changes its receiver returns the changed value. A Go map is an
  association list with distinct keys, \<^verbatim>\<open>m[k] = v\<close> is \<open>AList.update k v m\<close>, and a
  \<^verbatim>\<open>range\<close> loop visits the entries in list order. Go leaves that order unspecified;
  the list order stands for whichever order the runtime takes, and every theorem below
  is stated for every list, so for every order. A nil map is \<open>None\<close>.

  A form holds each of its fields as a value of its own: one Input stored under two
  keys of a form is not covered. The key of an entry is the name the field had when
  \<^verbatim>\<open>AddInput\<close> stored it, and \<^verbatim>\<open>Load\<close>, \<^verbatim>\<open>Validate\<close> and \<^verbatim>\<open>Values\<close> of
  a form go by that key, as the source does; a field renamed afterwards keeps its key.
  A validator is a function that returns.
\<close>

subsection \<open>Errors\<close>

text \<open>A Go \<^verbatim>\<open>error\<close> value, identified by the text its \<^verbatim>\<open>Error()\<close> method returns.\<close>

datatype error = ErrorString string

text \<open>A run-time panic of the Go runtime.\<close>

datatype panic = NilMapAssignment

record FieldError =
  fe_Name :: string
  fe_Error :: error

definition NewFieldError :: "string \<Rightarrow> error \<Rightarrow> FieldError" where
  "NewFieldError name err = \<lparr>fe_Name = name, fe_Error = err\<rparr>"

subsection \<open>Input\<close>

text \<open>
  The fields of \<^verbatim>\<open>struct Input\<close> other than \<^verbatim>\<open>validators\<close>. The names
  \<^verbatim>\<open>typ\<close>, \<^verbatim>\<open>value\<close>, \<^verbatim>\<open>min\<close> and \<^verbatim>\<open>max\<close> carry the suffix \<open>_f\<close>. A nil
  slice and an empty slice behave alike under \<^verbatim>\<open>append\<close>, \<^verbatim>\<open>range\<close> and
  \<^verbatim>\<open>strings.Join\<close>, so \<open>classes\<close> and \<open>validators\<close> are plain lists; \<open>attrs\<close> is
  \<open>None\<close> for the nil map. The bounds are only ever compared, so they are integers.
\<close>

record input_data =
  typ_f :: string
  name :: string
  value_f :: string
  classes :: "string list"
  min_f :: int
  max_f :: int
  required :: bool
  attrs :: "(string \<times> string) list option"

text \<open>
  A validator \<^verbatim>\<open>func(v *Input) error\<close> receives the Input by pointer: it returns
  an error or nil, and the fields as it left them. (A validator that changes the
  validator slice of the Input it is validating is not covered.)
\<close>

type_synonym validator = "input_data \<Rightarrow> error option \<times> input_data"

record Input =
  data :: input_data
  validators :: "validator list"

definition NewInput :: Input where
  "NewInput =
     \<lparr>data = \<lparr>typ_f = ''text'', name = [], value_f = [], classes = [], min_f = 0,
              max_f = 0, required = False, attrs = Some []\<rparr>,
      validators = []\<rparr>"

definition Name :: "Input \<Rightarrow> string" where
  "Name i = name (data i)"

definition SetName :: "string \<Rightarrow> Input \<Rightarrow> Input" where
  "SetName n i = i\<lparr>data := (data i)\<lparr>name := n\<rparr>\<rparr>"

definition AddClass :: "string \<Rightarrow> Input \<Rightarrow> Input" where
  "AddClass class i = i\<lparr>data := (data i)\<lparr>classes := classes (data i) @ [class]\<rparr>\<rparr>"

text \<open>\<^verbatim>\<open>i.attrs[key] = value\<close> panics when \<^verbatim>\<open>i.attrs\<close> is the nil map.\<close>

definition AddAttr :: "string \<Rightarrow> string \<Rightarrow> Input \<Rightarrow> panic + Input" where
  "AddAttr key val i =
     (case attrs (data i) of
        None \<Rightarrow> Inl NilMapAssignment
      | Some m \<Rightarrow> Inr (i\<lparr>data := (data i)\<lparr>attrs := Some (AList.update key val m)\<rparr>\<rparr>))"

definition AddValidator :: "validator \<Rightarrow> Input \<Rightarrow> Input" where
  "AddValidator v i = i\<lparr>validators := validators i @ [v]\<rparr>"

text \<open>\<^verbatim>\<open>strings.Join\<close>.\<close>

fun Join :: "string list \<Rightarrow> string \<Rightarrow> string" where
  "Join [] sep = []"
| "Join [x] sep = x"
| "Join (x # y # xs) sep = x @ sep @ Join (y # xs) sep"

text \<open>\<^verbatim>\<open>fmt.Sprintf("%s='%s'", k, v)\<close> for each entry, joined by spaces.\<close>

definition FmtAttrs :: "Input \<Rightarrow> string" where
  "FmtAttrs i =
     Join (map (\<lambda>(k, v). k @ ''='' @ [CHR 0x27] @ v @ [CHR 0x27])
             (case attrs (data i) of None \<Rightarrow> [] | Some m \<Rightarrow> m)) '' ''"

text \<open>\<^verbatim>\<open>fmt.Sprintf("<input type='%s' name='%s' value='%s' class='%s' %s>", ...)\<close>.\<close>

definition String :: "Input \<Rightarrow> string" where
  "String i =
     ''<input type='' @ [CHR 0x27] @ typ_f (data i) @ [CHR 0x27] @
     '' name='' @ [CHR 0x27] @ name (data i) @ [CHR 0x27] @
     '' value='' @ [CHR 0x27] @ value_f (data i) @ [CHR 0x27] @
     '' class='' @ [CHR 0x27] @ Join (classes (data i)) '' '' @ [CHR 0x27] @
     '' '' @ FmtAttrs i @ ''>''"

definition Value :: "Input \<Rightarrow> string" where
  "Value i = value_f (data i)"

definition SetValue :: "string \<Rightarrow> Input \<Rightarrow> Input" where
  "SetValue v i = i\<lparr>data := (data i)\<lparr>value_f := v\<rparr>\<rparr>"

text \<open>
  The loop of \<^verbatim>\<open>Input.Validate\<close> over the validators still to run. The slice is
  read once, when the loop starts; each validator is called on the Input as the
  validators before it left it.
\<close>

fun Validate_loop :: "validator list \<Rightarrow> Input \<Rightarrow> FieldError option \<times> Input" where
  "Validate_loop [] i = (None, i)"
| "Validate_loop (f # fs) i =
     (case f (data i) of
        (err, d) \<Rightarrow>
          (let i' = i\<lparr>data := d\<rparr> in
           case err of
             Some e \<Rightarrow> (Some (NewFieldError (Name i') e), i')
           | None \<Rightarrow> Validate_loop fs i'))"

definition Validate :: "Input \<Rightarrow> FieldError option \<times> Input" where
  "Validate i = Validate_loop (validators i) i"

text \<open>
  For stating what \<open>Validate\<close> does: the fields of the Input after the first \<open>j\<close>
  validators of \<open>fs\<close> have been called in order, starting from \<open>d\<close>.
\<close>

definition after_validators :: "validator list \<Rightarrow> nat \<Rightarrow> input_data \<Rightarrow> input_data" where
  "after_validators fs j d = fold (\<lambda>f d'. snd (f d')) (take j fs) d"

subsection \<open>The standard library calls of the integer validators\<close>

text \<open>
  \<^verbatim>\<open>strconv.ParseInt(s, 10, 32)\<close> and the \<^verbatim>\<open>strconv.ParseUint\<close> it calls, from
  the Go standard library, at the base and the bit size the package uses. The value is
  returned together with the kind of error, if any.
\<close>

datatype num_error = ErrSyntax | ErrRange

text \<open>
  The digit value of a byte: a decimal digit, or 10 and more for a letter of either
  case. (\<^verbatim>\<open>lower(c) = c | 0x20\<close> lies between \<^verbatim>\<open>'a'\<close> and \<^verbatim>\<open>'z'\<close> exactly
  for the 52 letters.) \<open>None\<close> is the \<^verbatim>\<open>default\<close> branch.
\<close>

definition digit_val :: "char \<Rightarrow> nat option" where
  "digit_val c =
     (let b = (of_char c :: nat) in
      if 48 \<le> b \<and> b \<le> 57 then Some (b - 48)
      else if 97 \<le> b \<and> b \<le> 122 then Some (b - 97 + 10)
      else if 65 \<le> b \<and> b \<le> 90 then Some (b - 65 + 10)
      else None)"

definition maxVal :: nat where
  "maxVal = 2 ^ 32 - 1"

text \<open>The least \<open>n\<close> such that \<open>n * 10\<close> exceeds the largest \<^verbatim>\<open>uint64\<close>.\<close>

definition cutoff10 :: nat where
  "cutoff10 = (2 ^ 64 - 1) div 10 + 1"

text \<open>
  The loop of \<^verbatim>\<open>ParseUint\<close> over the bytes, \<open>n\<close> the \<^verbatim>\<open>uint64\<close> read so far;
  the addition wraps at \<open>2 ^ 64\<close>.
\<close>

fun ParseUint_loop :: "nat \<Rightarrow> string \<Rightarrow> nat \<times> num_error option" where
  "ParseUint_loop n [] = (n, None)"
| "ParseUint_loop n (c # s) =
     (case digit_val c of
        None \<Rightarrow> (0, Some ErrSyntax)
      | Some d \<Rightarrow>
          if d \<ge> 10 then (0, Some ErrSyntax)
          else if n \<ge> cutoff10 then (maxVal, Some ErrRange)
          else
            (let m = n * 10; n1 = (m + d) mod 2 ^ 64 in
             if n1 < m \<or> n1 > maxVal then (maxVal, Some ErrRange)
             else ParseUint_loop n1 s))"

definition ParseUint :: "string \<Rightarrow> nat \<times> num_error option" where
  "ParseUint s = (if s = [] then (0, Some ErrSyntax) else ParseUint_loop 0 s)"

definition ParseInt :: "string \<Rightarrow> int \<times> num_error option" where
  "ParseInt s0 =
     (if s0 = [] then (0, Some ErrSyntax)
      else
        (let neg = (hd s0 = CHR ''-'');
             s = (if hd s0 = CHR ''+'' \<or> hd s0 = CHR ''-'' then tl s0 else s0);
             (un, err) = ParseUint s
         in if err \<noteq> None \<and> err \<noteq> Some ErrRange then (0, err)
            else
              (let cutoff = (2 ^ 31 :: nat) in
               if \<not> neg \<and> un \<ge> cutoff then (int (cutoff - 1), Some ErrRange)
               else if neg \<and> un > cutoff then (- int cutoff, Some ErrRange)
               else (if neg then - int un else int un, None))))"

text \<open>
  For stating what \<open>ParseInt\<close> accepts: a byte between \<^verbatim>\<open>'0'\<close> and \<^verbatim>\<open>'9'\<close>,
  and the number that a string of such bytes denotes in base 10.
\<close>

definition is_digit :: "char \<Rightarrow> bool" where
  "is_digit c = (of_char (CHR ''0'') \<le> (of_char c :: nat) \<and> (of_char c :: nat) \<le> of_char (CHR ''9''))"

definition decimal :: "string \<Rightarrow> nat" where
  "decimal ds = foldl (\<lambda>n c. n * 10 + (of_char c - of_char (CHR ''0''))) 0 ds"

text \<open>
  The decimal digits of a natural number, each read from the digit table, and
  \<^verbatim>\<open>%v\<close> of an \<^verbatim>\<open>int\<close>.
\<close>

fun digits10 :: "nat \<Rightarrow> string" where
  "digits10 n =
     (if n < 10 then [''0123456789'' ! n]
      else digits10 (n div 10) @ [''0123456789'' ! (n mod 10)])"

definition Itoa :: "int \<Rightarrow> string" where
  "Itoa k = (if k < 0 then CHR ''-'' # digits10 (nat (- k)) else digits10 (nat k))"

text \<open>
  \<^verbatim>\<open>fmt.Sprintf("%s is %s than ", a, b, n)\<close> with two strings and an \<^verbatim>\<open>int\<close>: the
  format has two verbs, so \<^verbatim>\<open>fmt\<close> reports the third operand after the formatted
  text as \<^verbatim>\<open>%!(EXTRA int=n)\<close>.
\<close>

definition Sprintf_than :: "string \<Rightarrow> string \<Rightarrow> int \<Rightarrow> string" where
  "Sprintf_than a b n = a @ '' is '' @ b @ '' than '' @ ''%!(EXTRA int='' @ Itoa n @ '')''"

subsection \<open>IntegerInput and its validators\<close>

definition integerBound :: validator where
  "integerBound i =
     (let v = fst (ParseInt (value_f i)) in
      if v < min_f i then (Some (ErrorString (Sprintf_than (name i) ''less'' (min_f i))), i)
      else if v > max_f i then (Some (ErrorString (Sprintf_than (name i) ''more'' (max_f i))), i)
      else (None, i))"

definition isInteger :: validator where
  "isInteger i =
     (if snd (ParseInt (value_f i)) \<noteq> None then (Some (ErrorString ''Not a valid integer.''), i)
      else (None, i))"

definition integerValidators :: "validator list" where
  "integerValidators = [isInteger, integerBound]"

text \<open>\<^verbatim>\<open>TextInput\<close> and \<^verbatim>\<open>IntegerInput\<close> are structs that embed an Input.\<close>

datatype TextInput = TextInput (text_Input: Input)

datatype IntegerInput = IntegerInput (integer_Input: Input)

text \<open>
  \<^verbatim>\<open>new(IntegerInput)\<close> is the zero value: every string empty, every number 0, every
  slice and map nil. The loop then appends the package's validators one by one.
\<close>

definition zero_Input :: Input where
  "zero_Input =
     \<lparr>data = \<lparr>typ_f = [], name = [], value_f = [], classes = [], min_f = 0,
              max_f = 0, required = False, attrs = None\<rparr>,
      validators = []\<rparr>"

definition NewIntegerInput :: IntegerInput where
  "NewIntegerInput =
     IntegerInput (fold (\<lambda>v input. input\<lparr>validators := validators input @ [v]\<rparr>)
                     integerValidators zero_Input)"

subsection \<open>The Field interface\<close>

text \<open>
  The three types of the package that implement \<^verbatim>\<open>Field\<close>. Each of its
  methods is the one of the embedded Input.
\<close>

datatype Field = FInput Input | FTextInput TextInput | FIntegerInput IntegerInput

fun the_Input :: "Field \<Rightarrow> Input" where
  "the_Input (FInput i) = i"
| "the_Input (FTextInput t) = text_Input t"
| "the_Input (FIntegerInput n) = integer_Input n"

fun with_Input :: "Input \<Rightarrow> Field \<Rightarrow> Field" where
  "with_Input i (FInput _) = FInput i"
| "with_Input i (FTextInput _) = FTextInput (TextInput i)"
| "with_Input i (FIntegerInput _) = FIntegerInput (IntegerInput i)"

definition Field_Name :: "Field \<Rightarrow> string" where
  "Field_Name field = Name (the_Input field)"

definition Field_Value :: "Field \<Rightarrow> string" where
  "Field_Value field = Value (the_Input field)"

definition Field_SetValue :: "string \<Rightarrow> Field \<Rightarrow> Field" where
  "Field_SetValue v field = with_Input (SetValue v (the_Input field)) field"

definition Field_SetName :: "string \<Rightarrow> Field \<Rightarrow> Field" where
  "Field_SetName n field = with_Input (SetName n (the_Input field)) field"

definition Field_String :: "Field \<Rightarrow> string" where
  "Field_String field = String (the_Input field)"


subsection \<open>The request\<close>





subsection \<open>Form\<close>

text \<open>The fields \<^verbatim>\<open>method\<close> and \<^verbatim>\<open>fields\<close> carry the suffix \<open>_f\<close>.\<close>

record Form =
  action :: string
  method_f :: string
  fields_f :: "(string \<times> Field) list"


definition NewForm :: Form where
  "NewForm = \<lparr>action = [], method_f = ''GET'', fields_f = []\<rparr>"

definition AddInput :: "Field \<Rightarrow> Form \<Rightarrow> Form" where
  "AddInput field f = f\<lparr>fields_f := AList.update (Field_Name field) field (fields_f f)\<rparr>"

definition SetAction :: "string \<Rightarrow> Form \<Rightarrow> Form" where
  "SetAction a f = f\<lparr>action := a\<rparr>"

definition Action :: "Form \<Rightarrow> string" where
  "Action f = action f"

definition SetMethod :: "string \<Rightarrow> Form \<Rightarrow> Form" where
  "SetMethod m f = f\<lparr>method_f := m\<rparr>"

definition Method :: "Form \<Rightarrow> string" where
  "Method f = method_f f"

text \<open>\<^verbatim>\<open>fmt.Sprintf("<form action='%s' method='%s'>", f.action, f.method)\<close>.\<close>

definition form_tag :: "Form \<Rightarrow> string" where
  "form_tag f =
     ''<form action='' @ [CHR 0x27] @ action f @ [CHR 0x27] @
     '' method='' @ [CHR 0x27] @ method_f f @ [CHR 0x27] @ ''>''"

definition HTML :: "Form \<Rightarrow> string" where
  "HTML f =
     fold (\<lambda>(_, field) form. form @ Field_String field) (fields_f f) (form_tag f) @ ''</form>''"




definition Values :: "Form \<Rightarrow> (string \<times> string) list" where
  "Values f = fold (\<lambda>(k, field) values. AList.update k (Field_Value field) values) (fields_f f) []"

text \<open>
  The invariant of a Go map: no key occurs twice.
\<close>

definition map_ok :: "('k \<times> 'v) list \<Rightarrow> bool" where
  "map_ok m = distinct (map fst m)"

text \<open>The number of places of \<open>s\<close> at which \<open>p\<close> occurs.\<close>

fun count_occ :: "string \<Rightarrow> string \<Rightarrow> nat" where
  "count_occ p [] = (if p = [] then 1 else 0)"
| "count_occ p (c # s) = (if take (length p) (c # s) = p then 1 else 0) + count_occ p s"

subsection \<open>Example inputs\<close>

text \<open>
  An Input with three validators of a caller: the first changes the value and passes,
  the second renames the field and fails on the changed value, the third would fail too.
\<close>

definition ex_input :: Input where
  "ex_input =
     \<lparr>data = \<lparr>typ_f = ''text'', name = ''age'', value_f = ''41'', classes = [], min_f = 0,
              max_f = 0, required = False, attrs = Some []\<rparr>,
      validators =
        [\<lambda>d. (None, d\<lparr>value_f := ''42''\<rparr>),
         \<lambda>d. (if value_f d = ''42'' then Some (ErrorString ''taken'') else None, d\<lparr>name := ''years''\<rparr>),
         \<lambda>d. (Some (ErrorString ''late''), d\<lparr>value_f := ''43''\<rparr>)]\<rparr>"

text \<open>An integer field \<open>age\<close> and a text field \<open>name\<close>, and a form that holds both.\<close>

definition ex_age :: Field where
  "ex_age = Field_SetName ''age'' (FIntegerInput NewIntegerInput)"

definition ex_name :: Field where
  "ex_name = Field_SetName ''name'' (FInput NewInput)"

definition ex_form :: Form where
  "ex_form = AddInput (Field_SetValue ''abc'' ex_age) (AddInput ex_name NewForm)"

text \<open>An integer field \<open>age\<close> with the bounds \<open>lo\<close> and \<open>hi\<close> that holds \<open>v\<close>.\<close>

definition ex_bounded :: "int \<Rightarrow> int \<Rightarrow> string \<Rightarrow> Input" where
  "ex_bounded lo hi v =
     \<lparr>data = \<lparr>typ_f = [], name = ''age'', value_f = v, classes = [], min_f = lo,
              max_f = hi, required = False, attrs = None\<rparr>,
      validators = integerValidators\<rparr>"


text \<open>The form of the rendering example: one integer field \<open>age\<close>.\<close>

definition ex_page :: Form where
  "ex_page = SetMethod ''POST'' (SetAction ''/submit'' (AddInput ex_age NewForm))"

section \<open>Properties\<close>

subsection \<open>Input.Validate\<close>

lemma after_validators_0: "after_validators fs 0 d = d"
  by (simp add: after_validators_def)

lemma after_validators_Suc_Cons:
  "after_validators (f # fs) (Suc j) d = after_validators fs j (snd (f d))"
  by (simp add: after_validators_def)

lemma Validate_loop_pass:
  "(\<forall>j < length fs. fst ((fs ! j) (after_validators fs j (data i))) = None) \<Longrightarrow>
   Validate_loop fs i = (None, i\<lparr>data := after_validators fs (length fs) (data i)\<rparr>)"
proof (induction fs arbitrary: i)
  case Nil
  then show ?case by (simp add: after_validators_0)
next
  case (Cons f fs)
  from Cons.prems have h0: "fst (f (data i)) = None"
    by (auto simp: after_validators_0 dest: spec [of _ 0])
  obtain d where fd: "f (data i) = (None, d)"
    using h0 by (cases "f (data i)") auto
  have "\<forall>j < length fs. fst ((fs ! j) (after_validators fs j (data (i\<lparr>data := d\<rparr>)))) = None"
  proof (intro allI impI)
    fix j assume "j < length fs"
    then have "Suc j < length (f # fs)" by simp
    from Cons.prems [rule_format, OF this] show "fst ((fs ! j) (after_validators fs j (data (i\<lparr>data := d\<rparr>)))) = None"
      by (simp add: after_validators_Suc_Cons fd)
  qed
  from Cons.IH [OF this] show ?case
    by (simp add: fd after_validators_Suc_Cons)
qed

lemma Validate_loop_fail:
  "(\<forall>j < length ps. fst ((ps ! j) (after_validators ps j (data i))) = None) \<Longrightarrow>
   f (after_validators ps (length ps) (data i)) = (Some e, d) \<Longrightarrow>
   Validate_loop (ps @ f # rest) i = (Some (NewFieldError (name d) e), i\<lparr>data := d\<rparr>)"
proof (induction ps arbitrary: i)
  case Nil
  then show ?case by (simp add: after_validators_0 Name_def)
next
  case (Cons p ps)
  from Cons.prems(1) have h0: "fst (p (data i)) = None"
    by (auto simp: after_validators_0 dest: spec [of _ 0])
  obtain d0 where pd: "p (data i) = (None, d0)"
    using h0 by (cases "p (data i)") auto
  have a: "\<forall>j < length ps. fst ((ps ! j) (after_validators ps j (data (i\<lparr>data := d0\<rparr>)))) = None"
  proof (intro allI impI)
    fix j assume "j < length ps"
    then have "Suc j < length (p # ps)" by simp
    from Cons.prems(1) [rule_format, OF this] show "fst ((ps ! j) (after_validators ps j (data (i\<lparr>data := d0\<rparr>)))) = None"
      by (simp add: after_validators_Suc_Cons pd)
  qed
  have b: "f (after_validators ps (length ps) (data (i\<lparr>data := d0\<rparr>))) = (Some e, d)"
    using Cons.prems(2) by (simp add: after_validators_Suc_Cons pd)
  from Cons.IH [OF a b] show ?case
    by (simp add: pd)
qed

text \<open>
  C1. \<open>Validate\<close> calls the validators in the order of the slice, each on the Input as
  its predecessors left it. With no validators the result is nil. When every validator
  returns nil the result is nil. When the validators \<open>ps\<close> before \<open>f\<close> return nil and
  \<open>f\<close> returns the error \<open>e\<close>, leaving the fields \<open>d\<close>, the result is the FieldError
  of \<open>e\<close> under the name the field has in \<open>d\<close>, and the Input is left with the fields
  \<open>d\<close>: whatever validators \<open>rest\<close> follow \<open>f\<close>, none of them is called.
\<close>

theorem Validate_runs_in_order_until_first_error:
  "(validators i = [] \<longrightarrow> Validate i = (None, i)) \<and>
   ((\<forall>j < length (validators i).
       fst ((validators i ! j) (after_validators (validators i) j (data i))) = None) \<longrightarrow>
    Validate i =
      (None, i\<lparr>data := after_validators (validators i) (length (validators i)) (data i)\<rparr>)) \<and>
   (\<forall>ps f rest e d.
      validators i = ps @ f # rest \<and>
      (\<forall>j < length ps. fst ((ps ! j) (after_validators ps j (data i))) = None) \<and>
      f (after_validators ps (length ps) (data i)) = (Some e, d) \<longrightarrow>
      Validate i = (Some (NewFieldError (name d) e), i\<lparr>data := d\<rparr>))"
  unfolding Validate_def
  by (auto simp: Validate_loop_pass Validate_loop_fail)

theorem Validate_runs_in_order_until_first_error_witness:
  "Validate ex_input =
     (Some \<lparr>fe_Name = ''years'', fe_Error = ErrorString ''taken''\<rparr>,
      ex_input\<lparr>data := (data ex_input)\<lparr>name := ''years'', value_f := ''42''\<rparr>\<rparr>)"
proof -
  let ?ps = "[\<lambda>d. (None, d\<lparr>value_f := ''42''\<rparr>)] :: validator list"
  let ?f = "\<lambda>d. (if value_f d = ''42'' then Some (ErrorString ''taken'') else None, d\<lparr>name := ''years''\<rparr>)"
  let ?rest = "[\<lambda>d. (Some (ErrorString ''late''), d\<lparr>value_f := ''43''\<rparr>)] :: validator list"
  let ?d = "(data ex_input)\<lparr>name := ''years'', value_f := ''42''\<rparr>"
  have h: "validators ex_input = ?ps @ ?f # ?rest \<and>
      (\<forall>j < length ?ps. fst ((?ps ! j) (after_validators ?ps j (data ex_input))) = None) \<and>
      ?f (after_validators ?ps (length ?ps) (data ex_input)) = (Some (ErrorString ''taken''), ?d)"
    by (simp add: ex_input_def after_validators_def)
  have "Validate ex_input = (Some (NewFieldError (name ?d) (ErrorString ''taken'')), ex_input\<lparr>data := ?d\<rparr>)"
    using Validate_runs_in_order_until_first_error [of ex_input, THEN conjunct2, THEN conjunct2,
        rule_format, OF h] .
  then show ?thesis by (simp add: NewFieldError_def)
qed

subsection \<open>What ParseInt accepts\<close>

text \<open>
  \<open>ParseInt\<close> returns without an error exactly for an optional sign followed by at
  least one decimal digit, denoting a number from \<open>- 2 ^ 31\<close> to \<open>2 ^ 31 - 1\<close>, and
  then it returns that number.
\<close>

lemma digit_val_digit:
  "is_digit c \<Longrightarrow> digit_val c = Some (of_char c - 48) \<and> (of_char c - 48 :: nat) < 10"
  by (auto simp: is_digit_def digit_val_def Let_def)

lemma digit_val_not_digit:
  "\<not> is_digit c \<Longrightarrow> digit_val c = None \<or> (\<exists>d. digit_val c = Some d \<and> d \<ge> 10)"
  by (auto simp: is_digit_def digit_val_def Let_def)

lemma foldl_decimal_mono:
  "n \<le> foldl (\<lambda>n c. n * 10 + (of_char c - (48::nat))) n ds"
proof (induction ds arbitrary: n)
  case Nil
  then show ?case by simp
next
  case (Cons c ds)
  have "n \<le> n * 10 + (of_char c - 48)" by simp
  also have "\<dots> \<le> foldl (\<lambda>n c. n * 10 + (of_char c - (48::nat))) (n * 10 + (of_char c - 48)) ds"
    by (rule Cons.IH)
  finally show ?case by simp
qed

lemma ParseUint_loop_step:
  assumes "digit_val c = Some d" and "d < 10" and "n \<le> maxVal"
  shows "ParseUint_loop n (c # s) =
     (if n * 10 + d > maxVal then (maxVal, Some ErrRange) else ParseUint_loop (n * 10 + d) s)"
proof -
  have m: "(n * 10 + d) mod 18446744073709551616 = n * 10 + d"
    using assms(2,3) by (simp add: maxVal_def)
  have c: "\<not> n \<ge> cutoff10"
    using assms(3) by (simp add: maxVal_def cutoff10_def)
  show ?thesis
    using assms(1,2) c by (simp add: Let_def m)
qed

lemma ParseUint_loop_digits:
  "\<forall>c \<in> set ds. is_digit c \<Longrightarrow> n \<le> maxVal \<Longrightarrow>
   ParseUint_loop n ds =
     (let v = foldl (\<lambda>n c. n * 10 + (of_char c - (48::nat))) n ds
      in if v \<le> maxVal then (v, None) else (maxVal, Some ErrRange))"
proof (induction ds arbitrary: n)
  case Nil
  then show ?case by simp
next
  case (Cons c ds)
  let ?d = "of_char c - (48::nat)"
  let ?n1 = "n * 10 + ?d"
  from Cons.prems have dig: "digit_val c = Some ?d" "?d < 10"
    using digit_val_digit [of c] by auto
  note step = ParseUint_loop_step [OF dig Cons.prems(2), of ds]
  show ?case
  proof (cases "?n1 > maxVal")
    case True
    have "?n1 \<le> foldl (\<lambda>n c. n * 10 + (of_char c - (48::nat))) ?n1 ds"
      by (rule foldl_decimal_mono)
    with True have "\<not> foldl (\<lambda>n c. n * 10 + (of_char c - (48::nat))) ?n1 ds \<le> maxVal"
      by simp
    with True show ?thesis
      unfolding step by (simp add: Let_def)
  next
    case False
    then have le: "?n1 \<le> maxVal" by simp
    from Cons.prems(1) have "\<forall>c \<in> set ds. is_digit c" by simp
    from Cons.IH [OF this le] False show ?thesis
      unfolding step by (simp add: Let_def)
  qed
qed

lemma ParseUint_loop_not_digits:
  "\<exists>c \<in> set ds. \<not> is_digit c \<Longrightarrow> n \<le> maxVal \<Longrightarrow> snd (ParseUint_loop n ds) \<noteq> None"
proof (induction ds arbitrary: n)
  case Nil
  then show ?case by simp
next
  case (Cons c ds)
  show ?case
  proof (cases "is_digit c")
    case False
    with digit_val_not_digit [of c] show ?thesis
      by (auto simp: Let_def)
  next
    case True
    let ?d = "of_char c - (48::nat)"
    let ?n1 = "n * 10 + ?d"
    from True have dig: "digit_val c = Some ?d" "?d < 10"
      using digit_val_digit [of c] by auto
    note step = ParseUint_loop_step [OF dig Cons.prems(2), of ds]
    from True Cons.prems(1) have rest: "\<exists>c \<in> set ds. \<not> is_digit c" by auto
    show ?thesis
    proof (cases "?n1 > maxVal")
      case True
      then show ?thesis unfolding step by simp
    next
      case False
      then have "?n1 \<le> maxVal" by simp
      from Cons.IH [OF rest this] False show ?thesis
        unfolding step by simp
    qed
  qed
qed

lemma ParseUint_digits:
  "ds \<noteq> [] \<Longrightarrow> \<forall>c \<in> set ds. is_digit c \<Longrightarrow>
   ParseUint ds = (if decimal ds \<le> maxVal then (decimal ds, None) else (maxVal, Some ErrRange))"
  using ParseUint_loop_digits [of ds 0]
  by (simp add: ParseUint_def decimal_def Let_def maxVal_def)

lemma ParseUint_not_digits:
  "ds = [] \<or> (\<exists>c \<in> set ds. \<not> is_digit c) \<Longrightarrow> snd (ParseUint ds) \<noteq> None"
  using ParseUint_loop_not_digits [of ds 0]
  by (auto simp: ParseUint_def maxVal_def)


lemma ParseUint_loop_range_val:
  "snd (ParseUint_loop n ds) = Some ErrRange \<Longrightarrow> fst (ParseUint_loop n ds) = maxVal"
  by (induction n ds rule: ParseUint_loop.induct)
     (auto simp: Let_def split: option.splits if_splits)

lemma ParseUint_range_val:
  "snd (ParseUint ds) = Some ErrRange \<Longrightarrow> fst (ParseUint ds) = maxVal"
  using ParseUint_loop_range_val [of 0 ds] by (auto simp: ParseUint_def split: if_splits)

lemma ParseInt_Cons_ok:
  assumes "ParseUint s = (un, None)"
    and "s = (if c = CHR ''+'' \<or> c = CHR ''-'' then t else c # t)"
  shows "ParseInt (c # t) =
     (if c \<noteq> CHR ''-'' \<and> un \<ge> 2 ^ 31 then (2 ^ 31 - 1, Some ErrRange)
      else if c = CHR ''-'' \<and> un > 2 ^ 31 then (- (2 ^ 31), Some ErrRange)
      else (if c = CHR ''-'' then - int un else int un, None))"
proof -
  consider "c = CHR ''+''" "ParseUint t = (un, None)"
    | "c = CHR ''-''" "ParseUint t = (un, None)"
    | "c \<noteq> CHR ''+''" "c \<noteq> CHR ''-''" "ParseUint (c # t) = (un, None)"
    using assms by (auto split: if_splits)
  then show ?thesis
    by cases (simp_all add: ParseInt_def Let_def)
qed

lemma ParseInt_Cons_err:
  assumes "ParseUint s = (un, Some err)"
    and "s = (if c = CHR ''+'' \<or> c = CHR ''-'' then t else c # t)"
  shows "snd (ParseInt (c # t)) \<noteq> None"
proof -
  have un: "err = ErrRange \<Longrightarrow> un = maxVal"
    using ParseUint_range_val [of s] assms(1) by simp
  consider "c = CHR ''+''" "ParseUint t = (un, Some err)"
    | "c = CHR ''-''" "ParseUint t = (un, Some err)"
    | "c \<noteq> CHR ''+''" "c \<noteq> CHR ''-''" "ParseUint (c # t) = (un, Some err)"
    using assms by (auto split: if_splits)
  then show ?thesis
    using un by cases (cases err; simp add: ParseInt_def Let_def maxVal_def)+
qed

lemma is_digit_not_sign: "is_digit c \<Longrightarrow> c \<noteq> CHR ''+'' \<and> c \<noteq> CHR ''-''"
  by (auto simp: is_digit_def)

lemma ParseInt_digits:
  assumes "ds \<noteq> []" and "\<forall>c \<in> set ds. is_digit c"
  shows "ParseInt ds =
           (if decimal ds < 2 ^ 31 then (int (decimal ds), None) else (2 ^ 31 - 1, Some ErrRange))"
    and "ParseInt (CHR ''+'' # ds) =
           (if decimal ds < 2 ^ 31 then (int (decimal ds), None) else (2 ^ 31 - 1, Some ErrRange))"
    and "ParseInt (CHR ''-'' # ds) =
           (if decimal ds \<le> 2 ^ 31 then (- int (decimal ds), None) else (- (2 ^ 31), Some ErrRange))"
proof -
  note U = ParseUint_digits [OF assms]
  obtain c t where ds: "ds = c # t"
    using assms(1) by (cases ds) auto
  with assms(2) have c: "c \<noteq> CHR ''+''" "c \<noteq> CHR ''-''"
    using is_digit_not_sign [of c] by auto
  show "ParseInt ds =
           (if decimal ds < 2 ^ 31 then (int (decimal ds), None) else (2 ^ 31 - 1, Some ErrRange))"
  proof (cases "decimal ds \<le> maxVal")
    case True
    with U have "ParseUint ds = (decimal ds, None)"
      by simp
    from ParseInt_Cons_ok [OF this, of c t] show ?thesis
      by (simp add: ds c)
  next
    case False
    with U have "ParseUint (c # t) = (maxVal, Some ErrRange)"
      by (simp add: ds)
    with False show ?thesis
      by (simp add: ds c ParseInt_def Let_def maxVal_def)
  qed
  show "ParseInt (CHR ''+'' # ds) =
           (if decimal ds < 2 ^ 31 then (int (decimal ds), None) else (2 ^ 31 - 1, Some ErrRange))"
  proof (cases "decimal ds \<le> maxVal")
    case True
    with U have "ParseUint ds = (decimal ds, None)"
      by simp
    from ParseInt_Cons_ok [OF this, of "CHR ''+''" ds] show ?thesis
      by simp
  next
    case False
    with U have "ParseUint ds = (maxVal, Some ErrRange)"
      by simp
    with False show ?thesis
      by (simp add: ParseInt_def Let_def maxVal_def)
  qed
  show "ParseInt (CHR ''-'' # ds) =
           (if decimal ds \<le> 2 ^ 31 then (- int (decimal ds), None) else (- (2 ^ 31), Some ErrRange))"
  proof (cases "decimal ds \<le> maxVal")
    case True
    with U have "ParseUint ds = (decimal ds, None)"
      by simp
    from ParseInt_Cons_ok [OF this, of "CHR ''-''" ds] show ?thesis
      by auto
  next
    case False
    with U have "ParseUint ds = (maxVal, Some ErrRange)"
      by simp
    with False show ?thesis
      by (simp add: ParseInt_def Let_def maxVal_def)
  qed
qed

lemma ParseInt_ok_iff:
  "snd (ParseInt s) = None \<longleftrightarrow>
     (\<exists>ds. ds \<noteq> [] \<and> (\<forall>c \<in> set ds. is_digit c) \<and>
        ((s = ds \<or> s = CHR ''+'' # ds) \<and> decimal ds < 2 ^ 31 \<or>
         s = CHR ''-'' # ds \<and> decimal ds \<le> 2 ^ 31))"
proof
  assume ok: "snd (ParseInt s) = None"
  then obtain c t where s: "s = c # t"
    by (cases s) (auto simp: ParseInt_def)
  let ?ds = "if c = CHR ''+'' \<or> c = CHR ''-'' then t else c # t"
  have u: "snd (ParseUint ?ds) = None"
  proof (cases "ParseUint ?ds")
    case (Pair un err)
    show ?thesis
    proof (cases err)
      case None
      with Pair show ?thesis by simp
    next
      case (Some e)
      with Pair ParseInt_Cons_err [of ?ds un e c t] ok s show ?thesis
        by simp
    qed
  qed
  have d: "?ds \<noteq> []" "\<forall>c \<in> set ?ds. is_digit c"
    using ParseUint_not_digits [of ?ds] u by blast+
  note P = ParseInt_digits [OF d]
  show "\<exists>ds. ds \<noteq> [] \<and> (\<forall>c \<in> set ds. is_digit c) \<and>
        ((s = ds \<or> s = CHR ''+'' # ds) \<and> decimal ds < 2 ^ 31 \<or>
         s = CHR ''-'' # ds \<and> decimal ds \<le> 2 ^ 31)"
  proof (intro exI [of _ ?ds] conjI d)
    consider "c = CHR ''+''" | "c = CHR ''-''" | "c \<noteq> CHR ''+''" "c \<noteq> CHR ''-''"
      by blast
    then show "(s = ?ds \<or> s = CHR ''+'' # ?ds) \<and> decimal ?ds < 2 ^ 31 \<or>
         s = CHR ''-'' # ?ds \<and> decimal ?ds \<le> 2 ^ 31"
    proof cases
      case 1
      with P(2) ok s show ?thesis by (auto split: if_splits)
    next
      case 2
      with P(3) ok s show ?thesis by (auto split: if_splits)
    next
      case 3
      with P(1) ok s show ?thesis by (auto split: if_splits)
    qed
  qed
next
  assume "\<exists>ds. ds \<noteq> [] \<and> (\<forall>c \<in> set ds. is_digit c) \<and>
        ((s = ds \<or> s = CHR ''+'' # ds) \<and> decimal ds < 2 ^ 31 \<or>
         s = CHR ''-'' # ds \<and> decimal ds \<le> 2 ^ 31)"
  then obtain ds where d: "ds \<noteq> []" "\<forall>c \<in> set ds. is_digit c"
    and c: "(s = ds \<or> s = CHR ''+'' # ds) \<and> decimal ds < 2 ^ 31 \<or>
         s = CHR ''-'' # ds \<and> decimal ds \<le> 2 ^ 31"
    by blast
  from c ParseInt_digits [OF d] show "snd (ParseInt s) = None"
    by auto
qed

subsection \<open>The integer validators\<close>

lemmas parse_defs = ParseInt_def ParseUint_def digit_val_def maxVal_def cutoff10_def Let_def

lemma Validate_integerValidators:
  assumes "validators i = integerValidators"
  shows "Validate i =
    (if snd (ParseInt (value_f (data i))) \<noteq> None
     then Some (NewFieldError (Name i) (ErrorString ''Not a valid integer.''))
     else map_option (NewFieldError (Name i)) (fst (integerBound (data i))), i)"
  using assms
  by (simp add: Validate_def integerValidators_def isInteger_def integerBound_def Let_def Name_def)

lemma NewIntegerInput_validators:
  "validators (integer_Input NewIntegerInput) = integerValidators"
  by (simp add: NewIntegerInput_def integerValidators_def zero_Input_def)

lemma NewIntegerInput_eq:
  "NewIntegerInput = IntegerInput (zero_Input\<lparr>validators := integerValidators\<rparr>)"
  by (simp add: NewIntegerInput_def integerValidators_def zero_Input_def)

text \<open>
  C3. \<^verbatim>\<open>integerValidators\<close> is \<open>isInteger\<close> followed by \<open>integerBound\<close>, and these
  are the validators of a new IntegerInput. Whenever \<^verbatim>\<open>strconv.ParseInt\<close> reports an
  error for the value of an Input whose first validator is \<open>isInteger\<close>, \<open>Validate\<close>
  returns the one FieldError of that field with the cause \<^verbatim>\<open>Not a valid integer.\<close>,
  whatever validators follow: \<open>integerBound\<close> is not called.
\<close>

theorem isInteger_rejects_before_integerBound:
  "integerValidators = [isInteger, integerBound] \<and>
   validators (integer_Input NewIntegerInput) = integerValidators \<and>
   (\<forall>i rest. snd (ParseInt (Value i)) \<noteq> None \<and> validators i = isInteger # rest \<longrightarrow>
      Validate i = (Some (NewFieldError (Name i) (ErrorString ''Not a valid integer.'')), i))"
  by (auto simp: NewIntegerInput_validators integerValidators_def Validate_def isInteger_def
        Value_def Name_def)

theorem isInteger_rejects_witness:
  "snd (ParseInt (Value (ex_bounded 0 130 ''abc''))) \<noteq> None \<and>
   Validate (ex_bounded 0 130 ''abc'') =
     (Some \<lparr>fe_Name = ''age'', fe_Error = ErrorString ''Not a valid integer.''\<rparr>,
      ex_bounded 0 130 ''abc'')"
proof -
  have h: "snd (ParseInt (Value (ex_bounded 0 130 ''abc''))) \<noteq> None \<and>
      validators (ex_bounded 0 130 ''abc'') = isInteger # [integerBound]"
    by (simp add: ex_bounded_def Value_def integerValidators_def parse_defs)
  from isInteger_rejects_before_integerBound [THEN conjunct2, THEN conjunct2, rule_format, OF h] h
  show ?thesis by (simp add: NewFieldError_def ex_bounded_def Name_def)
qed

text \<open>
  C4. For an Input with the integer validators whose value parses to \<open>n\<close>:
  with \<open>min \<le> n \<le> max\<close> validation passes, both bounds included; with \<open>n < min\<close> it
  fails and the message ends with the number \<open>min\<close>; with \<open>max < n\<close> and \<open>min \<le> n\<close>
  (which \<open>max < n\<close> implies whenever \<open>min \<le> max\<close>) it fails and the message ends with
  the number \<open>max\<close>. The format string has no verb for the bound, so \<^verbatim>\<open>fmt\<close>
  appends it as \<^verbatim>\<open>%!(EXTRA int=...)\<close>.
\<close>

theorem integerBound_inclusive:
  "validators i = integerValidators \<and> ParseInt (Value i) = (n, None) \<longrightarrow>
     (min_f (data i) \<le> n \<and> n \<le> max_f (data i) \<longrightarrow> Validate i = (None, i)) \<and>
     (n < min_f (data i) \<longrightarrow>
        Validate i =
          (Some (NewFieldError (Name i)
             (ErrorString (Name i @ '' is less than %!(EXTRA int='' @ Itoa (min_f (data i)) @ '')''))), i)) \<and>
     (min_f (data i) \<le> n \<and> max_f (data i) < n \<longrightarrow>
        Validate i =
          (Some (NewFieldError (Name i)
             (ErrorString (Name i @ '' is more than %!(EXTRA int='' @ Itoa (max_f (data i)) @ '')''))), i))"
  by (auto simp: Validate_integerValidators Value_def integerBound_def Sprintf_than_def Name_def)

theorem integerBound_inclusive_witness:
  "Validate (ex_bounded 0 130 ''130'') = (None, ex_bounded 0 130 ''130'') \<and>
   Validate (ex_bounded 0 130 ''0'') = (None, ex_bounded 0 130 ''0'') \<and>
   fst (Validate (ex_bounded 0 130 ''200'')) =
     Some \<lparr>fe_Name = ''age'', fe_Error = ErrorString ''age is more than %!(EXTRA int=130)''\<rparr> \<and>
   fst (Validate (ex_bounded 0 130 ''-1'')) =
     Some \<lparr>fe_Name = ''age'', fe_Error = ErrorString ''age is less than %!(EXTRA int=0)''\<rparr>"
proof -
  have h: "validators (ex_bounded 0 130 v) = integerValidators" for v
    by (simp add: ex_bounded_def)
  have p1: "ParseInt (Value (ex_bounded 0 130 ''130'')) = (130, None)"
    and p2: "ParseInt (Value (ex_bounded 0 130 ''0'')) = (0, None)"
    and p3: "ParseInt (Value (ex_bounded 0 130 ''200'')) = (200, None)"
    and p4: "ParseInt (Value (ex_bounded 0 130 ''-1'')) = (-1, None)"
    by (simp_all add: ex_bounded_def Value_def parse_defs)
  from integerBound_inclusive [of "ex_bounded 0 130 ''130''" 130] h p1
  have a: "Validate (ex_bounded 0 130 ''130'') = (None, ex_bounded 0 130 ''130'')"
    by (simp add: ex_bounded_def)
  from integerBound_inclusive [of "ex_bounded 0 130 ''0''" 0] h p2
  have b: "Validate (ex_bounded 0 130 ''0'') = (None, ex_bounded 0 130 ''0'')"
    by (simp add: ex_bounded_def)
  from integerBound_inclusive [of "ex_bounded 0 130 ''200''" 200] h p3
  have c: "fst (Validate (ex_bounded 0 130 ''200'')) =
     Some \<lparr>fe_Name = ''age'', fe_Error = ErrorString ''age is more than %!(EXTRA int=130)''\<rparr>"
    by (simp add: ex_bounded_def NewFieldError_def Name_def Itoa_def)
  from integerBound_inclusive [of "ex_bounded 0 130 ''-1''" "-1"] h p4
  have d: "fst (Validate (ex_bounded 0 130 ''-1'')) =
     Some \<lparr>fe_Name = ''age'', fe_Error = ErrorString ''age is less than %!(EXTRA int=0)''\<rparr>"
    by (simp add: ex_bounded_def NewFieldError_def Name_def Itoa_def)
  from a b c d show ?thesis by simp
qed

text \<open>
  C4, inverted bounds. \<open>max < n\<close> alone does not make the message name \<open>max\<close>: with
  \<open>min = 5\<close> and \<open>max = 1\<close> the value \<open>3\<close> exceeds \<open>max\<close>, but the check against
  \<open>min\<close> comes first, and the message names 5 and nowhere 1.
\<close>

theorem integerBound_max_not_referenced_counterexample:
  "validators (ex_bounded 5 1 ''3'') = integerValidators \<and>
   ParseInt (Value (ex_bounded 5 1 ''3'')) = (3, None) \<and>
   max_f (data (ex_bounded 5 1 ''3'')) < 3 \<and>
   fst (Validate (ex_bounded 5 1 ''3'')) =
     Some \<lparr>fe_Name = ''age'', fe_Error = ErrorString ''age is less than %!(EXTRA int=5)''\<rparr> \<and>
   count_occ (Itoa (max_f (data (ex_bounded 5 1 ''3'')))) ''age is less than %!(EXTRA int=5)'' = 0"
  by (simp add: ex_bounded_def Value_def parse_defs Validate_def integerValidators_def
      isInteger_def integerBound_def Sprintf_than_def Itoa_def NewFieldError_def Name_def)

subsection \<open>NewIntegerInput\<close>

text \<open>
  C8. The type attribute of a new IntegerInput is the empty string, not the \<^verbatim>\<open>text\<close>
  that \<open>NewInput\<close> sets and that the comment on the struct field gives as the default:
  the field renders as \<^verbatim>\<open><input type='' ...>\<close>.
\<close>

theorem NewIntegerInput_typ_is_not_text:
  "typ_f (data (integer_Input NewIntegerInput)) = [] \<and>
   typ_f (data NewInput) = ''text'' \<and>
   String (integer_Input NewIntegerInput) =
     ''<input type='' @ [CHR 0x27, CHR 0x27] @ '' name='' @ [CHR 0x27, CHR 0x27] @
     '' value='' @ [CHR 0x27, CHR 0x27] @ '' class='' @ [CHR 0x27, CHR 0x27] @ '' >'' \<and>
   String NewInput =
     ''<input type='text' name='' @ [CHR 0x27, CHR 0x27] @
     '' value='' @ [CHR 0x27, CHR 0x27] @ '' class='' @ [CHR 0x27, CHR 0x27] @ '' >''"
  by (simp add: NewIntegerInput_eq zero_Input_def NewInput_def String_def FmtAttrs_def)

text \<open>
  C9. A new IntegerInput has both bounds 0. Whatever value it is given, \<open>Validate\<close>
  returns nil exactly when the value parses to the integer 0; a value that parses to
  another integer is rejected by \<open>integerBound\<close>.
\<close>

theorem NewIntegerInput_accepts_only_zero:
  "min_f (data (integer_Input NewIntegerInput)) = 0 \<and>
   max_f (data (integer_Input NewIntegerInput)) = 0 \<and>
   (\<forall>v. fst (Validate (SetValue v (integer_Input NewIntegerInput))) = None \<longleftrightarrow>
          ParseInt v = (0, None)) \<and>
   (\<forall>v n. ParseInt v = (n, None) \<and> n \<noteq> 0 \<longrightarrow>
      fst (integerBound (data (SetValue v (integer_Input NewIntegerInput)))) \<noteq> None \<and>
      fst (Validate (SetValue v (integer_Input NewIntegerInput))) \<noteq> None)"
  by (auto simp: Validate_integerValidators NewIntegerInput_eq SetValue_def
        integerBound_def zero_Input_def Let_def prod_eq_iff)

theorem NewIntegerInput_accepts_only_zero_witness:
  "fst (Validate (SetValue ''0'' (integer_Input NewIntegerInput))) = None \<and>
   fst (Validate (SetValue ''-0'' (integer_Input NewIntegerInput))) = None \<and>
   fst (Validate (SetValue ''7'' (integer_Input NewIntegerInput))) \<noteq> None"
proof -
  note T = NewIntegerInput_accepts_only_zero
  have p: "ParseInt ''0'' = (0, None)" "ParseInt ''-0'' = (0, None)" "ParseInt ''7'' = (7, None)"
    by (simp_all add: parse_defs)
  have h: "ParseInt ''7'' = (7, None) \<and> (7::int) \<noteq> 0"
    by (simp add: p)
  from T [THEN conjunct2, THEN conjunct2, THEN conjunct1, rule_format, of "''0''"] p(1)
  have a: "fst (Validate (SetValue ''0'' (integer_Input NewIntegerInput))) = None"
    by simp
  from T [THEN conjunct2, THEN conjunct2, THEN conjunct1, rule_format, of "''-0''"] p(2)
  have b: "fst (Validate (SetValue ''-0'' (integer_Input NewIntegerInput))) = None"
    by simp
  from T [THEN conjunct2, THEN conjunct2, THEN conjunct2, rule_format, OF h]
  have c: "fst (Validate (SetValue ''7'' (integer_Input NewIntegerInput))) \<noteq> None"
    by simp
  from a b c show ?thesis by simp
qed

text \<open>
  C10. The attribute map of a new IntegerInput is nil, and \<open>AddAttr\<close> on it panics. The
  map of \<open>NewInput\<close> is empty, not nil; \<open>AddAttr\<close> succeeds on every Input whose map
  is not nil, and leaves the map not nil.
\<close>

theorem AddAttr_nil_map:
  "AddAttr key val (integer_Input NewIntegerInput) = Inl NilMapAssignment \<and>
   attrs (data (integer_Input NewIntegerInput)) = None \<and>
   attrs (data NewInput) = Some [] \<and>
   AddAttr key val NewInput = Inr (NewInput\<lparr>data := (data NewInput)\<lparr>attrs := Some [(key, val)]\<rparr>\<rparr>) \<and>
   (\<forall>i. attrs (data i) \<noteq> None \<longrightarrow> (\<exists>i'. AddAttr key val i = Inr i' \<and> attrs (data i') \<noteq> None))"
  by (auto simp: AddAttr_def NewIntegerInput_def integerValidators_def zero_Input_def NewInput_def)

theorem AddAttr_nil_map_witness:
  "attrs (data NewInput) \<noteq> None \<and>
   (\<exists>i'. AddAttr ''id'' ''age'' NewInput = Inr i' \<and> attrs (data i') \<noteq> None)"
proof -
  have h: "attrs (data NewInput) \<noteq> None"
    by (simp add: NewInput_def)
  from AddAttr_nil_map [of "''id''" "''age''", THEN conjunct2, THEN conjunct2, THEN conjunct2,
      THEN conjunct2, rule_format, OF h] h
  show ?thesis by simp
qed

subsection \<open>Form.Validate\<close>







lemmas ex_defs = ex_age_def ex_name_def ex_form_def Field_SetName_def Field_SetValue_def
  SetName_def SetValue_def NewIntegerInput_eq zero_Input_def NewInput_def NewForm_def
  AddInput_def Field_Name_def Name_def



subsection \<open>Form.Load\<close>






subsection \<open>Form.AddInput and Form.Values\<close>

lemma count_key_one:
  "distinct (map fst ys) \<Longrightarrow> k \<in> fst ` set ys \<Longrightarrow>
   length (filter (\<lambda>(k', v). k' = k) ys) = 1"
proof (induction ys)
  case Nil
  then show ?case by simp
next
  case (Cons y ys)
  show ?case
  proof (cases "fst y = k")
    case True
    with Cons.prems have "k \<notin> fst ` set ys" by auto
    then have "filter (\<lambda>(k', v). k' = k) ys = []"
      by (force simp: filter_empty_conv)
    with True show ?thesis by (simp add: case_prod_unfold)
  next
    case False
    with Cons show ?thesis by (auto simp: case_prod_unfold)
  qed
qed

lemma Values_fold_map_ok:
  "map_ok acc \<Longrightarrow>
   map_ok (fold (\<lambda>(k, field) values. AList.update k (g field) values) xs acc)"
  by (induction xs arbitrary: acc) (auto simp: map_ok_def distinct_update)

lemma Values_fold_lookup:
  "map_ok xs \<Longrightarrow>
   map_of (fold (\<lambda>(k, field) values. AList.update k (g field) values) xs acc) k =
     (case map_of xs k of None \<Rightarrow> map_of acc k | Some field \<Rightarrow> Some (g field))"
proof (induction xs arbitrary: acc)
  case Nil
  then show ?case by simp
next
  case (Cons p xs)
  obtain k' field where p: "p = (k', field)" by (cases p)
  from Cons.prems have ok: "map_ok xs" and "k' \<notin> fst ` set xs"
    by (auto simp: map_ok_def p)
  then have none: "map_of xs k' = None"
    by (simp add: map_of_eq_None_iff)
  show ?case
    using Cons.IH [OF ok, of "AList.update k' (g field) acc"] none
    by (auto simp: p update_conv' split: option.splits)
qed

lemma Values_keys:
  "fst ` set (fold (\<lambda>(k, field) values. AList.update k (g field) values) xs acc) =
     fst ` set acc \<union> fst ` set xs"
proof (induction xs arbitrary: acc)
  case Nil
  then show ?case by simp
next
  case (Cons p xs)
  obtain k' field where p: "p = (k', field)" by (cases p)
  have "fst ` set (fold (\<lambda>(k, field) values. AList.update k (g field) values) (p # xs) acc) =
      fst ` set (AList.update k' (g field) acc) \<union> fst ` set xs"
    using Cons.IH [of "AList.update k' (g field) acc"] by (simp add: p)
  also have "\<dots> = fst ` set acc \<union> fst ` set (p # xs)"
    unfolding dom_update p by auto
  finally show ?case .
qed

text \<open>
  C6. The keys of a form stay distinct: they are in a new form, and \<open>AddInput\<close> keeps
  them so. After \<open>AddInput\<close> of \<open>a\<close> and then of \<open>b\<close> with the same name, the form holds
  exactly one field under that name, and it is \<open>b\<close>; the fields under other names are
  those of before; and \<open>Values\<close> has exactly one entry for the name, the value of \<open>b\<close>.
\<close>

theorem AddInput_last_write_wins:
  "map_ok (fields_f NewForm) \<and>
   (map_ok (fields_f f) \<longrightarrow> map_ok (fields_f (AddInput x f))) \<and>
   (map_ok (fields_f f) \<and> Field_Name a = Field_Name b \<longrightarrow>
      (let f2 = AddInput b (AddInput a f) in
         map_ok (fields_f f2) \<and>
         map_of (fields_f f2) (Field_Name b) = Some b \<and>
         length (filter (\<lambda>(k, field). k = Field_Name b) (fields_f f2)) = 1 \<and>
         (\<forall>k. k \<noteq> Field_Name b \<longrightarrow> map_of (fields_f f2) k = map_of (fields_f f) k) \<and>
         map_ok (Values f2) \<and>
         map_of (Values f2) (Field_Name b) = Some (Field_Value b) \<and>
         length (filter (\<lambda>(k, v). k = Field_Name b) (Values f2)) = 1))"
proof (intro conjI impI)
  show "map_ok (fields_f NewForm)" by (simp add: NewForm_def map_ok_def)
  show "map_ok (fields_f (AddInput x f))" if "map_ok (fields_f f)"
    using that by (simp add: AddInput_def map_ok_def distinct_update)
  assume h: "map_ok (fields_f f) \<and> Field_Name a = Field_Name b"
  define f2 where "f2 = AddInput b (AddInput a f)"
  have ok2: "map_ok (fields_f f2)"
    using h by (simp add: f2_def AddInput_def map_ok_def distinct_update)
  have look: "map_of (fields_f f2) = (map_of (fields_f f))(Field_Name b \<mapsto> b)"
    using h by (simp add: f2_def AddInput_def update_conv')
  have key: "Field_Name b \<in> fst ` set (fields_f f2)"
    by (simp add: f2_def AddInput_def dom_update)
  have c1: "length (filter (\<lambda>(k, field). k = Field_Name b) (fields_f f2)) = 1"
    using count_key_one [OF ok2 [unfolded map_ok_def] key] by simp
  have vok: "map_ok (Values f2)"
    unfolding Values_def by (rule Values_fold_map_ok) (simp add: map_ok_def)
  have vlook: "map_of (Values f2) (Field_Name b) = Some (Field_Value b)"
    unfolding Values_def by (simp add: Values_fold_lookup [OF ok2] look)
  have vkey: "Field_Name b \<in> fst ` set (Values f2)"
    unfolding Values_def Values_keys using key by simp
  have c2: "length (filter (\<lambda>(k, v). k = Field_Name b) (Values f2)) = 1"
    using count_key_one [OF vok [unfolded map_ok_def] vkey] by simp
  show "let f2 = AddInput b (AddInput a f) in
         map_ok (fields_f f2) \<and>
         map_of (fields_f f2) (Field_Name b) = Some b \<and>
         length (filter (\<lambda>(k, field). k = Field_Name b) (fields_f f2)) = 1 \<and>
         (\<forall>k. k \<noteq> Field_Name b \<longrightarrow> map_of (fields_f f2) k = map_of (fields_f f) k) \<and>
         map_ok (Values f2) \<and>
         map_of (Values f2) (Field_Name b) = Some (Field_Value b) \<and>
         length (filter (\<lambda>(k, v). k = Field_Name b) (Values f2)) = 1"
    using ok2 look c1 vok vlook c2 unfolding Let_def f2_def [symmetric] by simp
qed

theorem AddInput_last_write_wins_witness:
  "Field_Name (Field_SetName ''age'' (FInput NewInput)) = Field_Name (Field_SetValue ''2'' ex_age) \<and>
   map_of (fields_f (AddInput (Field_SetValue ''2'' ex_age)
                       (AddInput (Field_SetName ''age'' (FInput NewInput)) NewForm))) ''age'' =
     Some (Field_SetValue ''2'' ex_age) \<and>
   map_of (Values (AddInput (Field_SetValue ''2'' ex_age)
                       (AddInput (Field_SetName ''age'' (FInput NewInput)) NewForm))) ''age'' =
     Some ''2'' \<and>
   length (filter (\<lambda>(k, v). k = ''age'')
             (Values (AddInput (Field_SetValue ''2'' ex_age)
                       (AddInput (Field_SetName ''age'' (FInput NewInput)) NewForm)))) = 1"
proof -
  let ?a = "Field_SetName ''age'' (FInput NewInput)"
  let ?b = "Field_SetValue ''2'' ex_age"
  have n: "Field_Name ?a = ''age''" "Field_Name ?b = ''age''"
    by (simp_all add: ex_defs)
  have val: "Field_Value ?b = ''2''"
    by (simp add: ex_defs Field_Value_def Value_def)
  have h: "map_ok (fields_f NewForm) \<and> Field_Name ?a = Field_Name ?b"
    by (simp add: n) (simp add: NewForm_def map_ok_def)
  from AddInput_last_write_wins [of NewForm ?a ?a ?b, THEN conjunct2, THEN conjunct2,
      rule_format, OF h]
  show ?thesis
    by (simp add: Let_def n val)
qed

subsection \<open>Form.HTML\<close>

lemma fold_append_concat:
  "fold (\<lambda>(k, field) form. form @ g field) xs init = init @ concat (map (\<lambda>(k, field). g field) xs)"
  by (induction xs arbitrary: init) auto

text \<open>
  C7. \<open>HTML\<close> is one opening form tag with the action and the method of the form, then
  the \<open>String\<close> of each field of the form, one after the other, then one closing tag.
\<close>

theorem HTML_structure:
  "HTML f =
     ''<form action='' @ [CHR 0x27] @ Action f @ [CHR 0x27] @
     '' method='' @ [CHR 0x27] @ Method f @ [CHR 0x27] @ ''>'' @
     concat (map (\<lambda>(k, field). Field_String field) (fields_f f)) @
     ''</form>''"
  by (simp add: HTML_def fold_append_concat form_tag_def Action_def Method_def)

text \<open>
  The example of C7: action \<^verbatim>\<open>/submit\<close>, method \<^verbatim>\<open>POST\<close> and the one integer field
  \<open>age\<close>. The opening tag, the input element, the name and the closing tag each occur
  once in the output.
\<close>

theorem HTML_structure_witness:
  "HTML ex_page =
     ''<form action='/submit' method='POST'><input type='' @ [CHR 0x27, CHR 0x27] @
     '' name='age' value='' @ [CHR 0x27, CHR 0x27] @ '' class='' @ [CHR 0x27, CHR 0x27] @
     '' ></form>'' \<and>
   count_occ ''<form '' (HTML ex_page) = 1 \<and>
   count_occ ''<form action='/submit' method='POST'>'' (HTML ex_page) = 1 \<and>
   count_occ ''<input '' (HTML ex_page) = 1 \<and>
   count_occ (''name='age'' @ [CHR 0x27]) (HTML ex_page) = 1 \<and>
   count_occ ''</form>'' (HTML ex_page) = 1"
proof -
  have "HTML ex_page =
     ''<form action='/submit' method='POST'><input type='' @ [CHR 0x27, CHR 0x27] @
     '' name='age' value='' @ [CHR 0x27, CHR 0x27] @ '' class='' @ [CHR 0x27, CHR 0x27] @
     '' ></form>''"
    by (subst HTML_structure)
      (simp add: ex_page_def ex_defs SetMethod_def SetAction_def Action_def Method_def
        Field_String_def String_def FmtAttrs_def)
  then show ?thesis by simp
qed

end
